theory Spec2Isabelle
  imports Main
begin

section \<open>The image-upload plugin of \<^verbatim>\<open>src/index.ts\<close>\<close>

text \<open>
  The plugin registers a transform hook and a processAssets hook with the host build tool.
  Both close over one \<^verbatim>\<open>imageUrlMap\<close>. The model passes that map, the state of the
  object store behind the COS client, the assets of the compilation and the sequence of
  observable events (console lines, putObject calls and their settlement, updateAsset
  calls) explicitly.
\<close>

subsection \<open>Options and environment\<close>

record cos_options =
  SecretId :: string
  SecretKey :: string
  Bucket :: string
  Region :: string

record oss_options =
  accessKeyId :: string
  accessKeySecret :: string
  bucket :: string
  region :: string

text \<open>Every field of \<^verbatim>\<open>uploadImgCloudPluginType\<close> is optional: \<open>None\<close> is an absent field.\<close>

record uploadImgCloudPluginType =
  cos :: "cos_options option"
  oss :: "oss_options option"
  cdnBaseUrl :: "string option"
  uploadInDev :: "bool option"
  pathPrefix :: "string option"
  keepFilename :: "bool option"
  verbose :: "bool option"

text \<open>
  What \<^verbatim>\<open>asset.source()\<close> returns: a string or a Buffer. A Buffer is an object and so
  truthy even when it holds no byte; a string is truthy when it is not empty.
  \<^verbatim>\<open>toString\<close> of a Buffer is taken on bytes that are ASCII, where decoding changes nothing.
\<close>

datatype source = Str string | Buf string

fun truthy :: "source \<Rightarrow> bool" where
  "truthy (Str s) = (s \<noteq> [])"
| "truthy (Buf b) = True"

fun toString :: "source \<Rightarrow> string" where
  "toString (Str s) = s"
| "toString (Buf b) = b"

record put_params =
  reqBucket :: string
  reqRegion :: string
  Key :: string
  Body :: source

text \<open>
  What can be thrown inside the callback: the error that \<^verbatim>\<open>putObject\<close> hands to its
  callback, with which the awaited promise rejects, and the SyntaxError of \<^verbatim>\<open>new RegExp\<close>.
\<close>

datatype error = CosError string | SyntaxError

text \<open>
  The collaborators the plugin does not own: \<^verbatim>\<open>process.env.NODE_ENV\<close>, the md5 hex digest
  of node:crypto, the object store behind \<^verbatim>\<open>putObject\<close> (it answers each request with an
  error or with success, and moves to a new state), and the regular-expression engine on
  the patterns and replacement templates that the fragment modelled below leaves out
  (\<open>None\<close>: \<^verbatim>\<open>new RegExp\<close> throws a SyntaxError).
\<close>

record 'c env =
  isDev :: bool
  md5hex :: "source \<Rightarrow> string"
  putObject :: "'c \<Rightarrow> put_params \<Rightarrow> string option \<times> 'c"
  regexEngine :: "string \<Rightarrow> string \<Rightarrow> string \<Rightarrow> string option"

subsection \<open>Observable events\<close>

text \<open>
  What the plugin does to the outside, in the order it does it: the console lines (the
  warning of \<^verbatim>\<open>setup\<close>, line 92; the recorded path, line 73; the content, line 118; the
  two error lines of a failed upload, lines 149 and 210; the lines written when verbose,
  lines 156, 172, 191, 204, 232 and 257), the call of \<^verbatim>\<open>putObject\<close> (line 140) and the
  invocation of its callback, and the call of \<^verbatim>\<open>compilation.updateAsset\<close> (line 254).
\<close>

datatype event =
    WarnSkipUpload
  | LogRecordPath string
  | LogContent source
  | PutObject put_params
  | PutSettled put_params "string option"
  | ErrUploadFailed string string
  | LogUploadOk string
  | LogUrl string string
  | LogMatched string string
  | LogNewMapping string string
  | ErrCaught string error
  | LogReplace string string
  | UpdateAsset string string
  | LogUpdated string

record 'c world =
  imageUrlMap :: "(string \<times> string) list"
  cosState :: 'c
  assets :: "(string \<times> source) list"
  events :: "event list"

definition emit :: "event list \<Rightarrow> 'c world \<Rightarrow> 'c world" where
  "emit es w = w\<lparr>events := events w @ es\<rparr>"

subsection \<open>String helpers of the JavaScript runtime\<close>

fun startsWith :: "string \<Rightarrow> string \<Rightarrow> bool" where
  "startsWith s [] = True"
| "startsWith [] (p # ps) = False"
| "startsWith (c # cs) (p # ps) = (c = p \<and> startsWith cs ps)"

definition endsWith :: "string \<Rightarrow> string \<Rightarrow> bool" where
  "endsWith s e = startsWith (rev s) (rev e)"

text \<open>\<^verbatim>\<open>s.includes(t)\<close>: \<open>t\<close> occurs in \<open>s\<close> as a contiguous substring.\<close>

fun includesStr :: "string \<Rightarrow> string \<Rightarrow> bool" where
  "includesStr [] t = (t = [])"
| "includesStr (c # cs) t = (startsWith (c # cs) t \<or> includesStr cs t)"

text \<open>
  \<^verbatim>\<open>path.basename\<close> (POSIX): trailing slashes are dropped, then the part after the last
  remaining slash is returned; a path of slashes only gives the empty string.
\<close>

definition stripSlashes :: "string \<Rightarrow> string" where
  "stripSlashes p = rev (dropWhile (\<lambda>c. c = CHR ''/'') (rev p))"

definition basename :: "string \<Rightarrow> string" where
  "basename p = rev (takeWhile (\<lambda>c. c \<noteq> CHR ''/'') (rev (stripSlashes p)))"

text \<open>
  \<^verbatim>\<open>path.extname\<close> (POSIX): from the last dot of the basename to its end; empty when the
  basename has no dot, when its only dot is its first character, or when it is \<^verbatim>\<open>..\<close>.
\<close>

definition extname :: "string \<Rightarrow> string" where
  "extname p =
     (let b = basename p;
          ext = rev (takeWhile (\<lambda>c. c \<noteq> CHR ''.'') (rev b))
      in if CHR ''.'' \<notin> set b then []
         else if length ext + 1 = length b then []
         else if b = ''..'' then []
         else CHR ''.'' # ext)"

text \<open>\<^verbatim>\<open>/\.(png|jpe?g|gif|svg|webp)$/.test(filename)\<close>\<close>

definition isImage :: "string \<Rightarrow> bool" where
  "isImage filename =
     list_ex (endsWith filename) [''.png'', ''.jpg'', ''.jpeg'', ''.gif'', ''.svg'', ''.webp'']"

text \<open>\<^verbatim>\<open>/\.(j|t)s(x)$/.test(filename)\<close>: the group \<^verbatim>\<open>(x)\<close> is not optional.\<close>

definition isScript :: "string \<Rightarrow> bool" where
  "isScript filename = list_ex (endsWith filename) [''.jsx'', ''.tsx'']"

subsection \<open>The map of the closure\<close>

text \<open>
  A JavaScript \<^verbatim>\<open>Map\<close> keeps insertion order; \<^verbatim>\<open>set\<close> on a key that is present replaces the
  value where the key stands, and appends otherwise.
\<close>

fun mapSet :: "string \<Rightarrow> string \<Rightarrow> (string \<times> string) list \<Rightarrow> (string \<times> string) list" where
  "mapSet k v [] = [(k, v)]"
| "mapSet k v ((k', v') # m) = (if k' = k then (k, v) # m else (k', v') # mapSet k v m)"

subsection \<open>setup and the transform hook\<close>

definition verboseOf :: "uploadImgCloudPluginType \<Rightarrow> bool" where
  "verboseOf options = (verbose options \<noteq> Some False)"

definition shouldSkipUpload :: "'c env \<Rightarrow> uploadImgCloudPluginType \<Rightarrow> bool" where
  "shouldSkipUpload e options =
     ((cos options = None \<and> oss options = None)
      \<or> (isDev e \<and> uploadInDev options \<noteq> Some True))"

text \<open>The state right after \<^verbatim>\<open>setup\<close> has run: an empty map, and the warning when upload is skipped.\<close>

definition pluginSetup :: "'c env \<Rightarrow> uploadImgCloudPluginType \<Rightarrow> 'c \<Rightarrow> (string \<times> source) list \<Rightarrow> 'c world" where
  "pluginSetup e options c files =
     \<lparr>imageUrlMap = [], cosState = c, assets = files,
      events = (if shouldSkipUpload e options then [WarnSkipUpload] else [])\<rparr>"

text \<open>
  A \<^verbatim>\<open>TransformContext\<close>: the resource path, the code of the module, and whatever else the
  host passes along.
\<close>

record 'x transformContext =
  resourcePath :: string
  code :: source
  rest :: 'x

definition transform ::
  "uploadImgCloudPluginType \<Rightarrow> 'x transformContext \<Rightarrow> 'c world \<Rightarrow> 'x transformContext \<times> 'c world" where
  "transform options info w =
     (let originalPath = resourcePath info;
          w1 = w\<lparr>imageUrlMap := mapSet originalPath [] (imageUrlMap w)\<rparr>;
          w2 = (if verbose options \<noteq> Some False then emit [LogRecordPath originalPath] w1 else w1)
      in (info, w2))"

subsection \<open>processAssets: the upload loop\<close>

definition pathPrefixOf :: "uploadImgCloudPluginType \<Rightarrow> string" where
  "pathPrefixOf options =
     (case pathPrefix options of
        Some p \<Rightarrow> if p \<noteq> [] then p else ''images/''
      | None \<Rightarrow> ''images/'')"

definition keepFilenameOf :: "uploadImgCloudPluginType \<Rightarrow> bool" where
  "keepFilenameOf options = (keepFilename options \<noteq> Some False)"

definition cosPathOf :: "'c env \<Rightarrow> uploadImgCloudPluginType \<Rightarrow> string \<Rightarrow> source \<Rightarrow> string" where
  "cosPathOf e options filename content =
     (if keepFilenameOf options then pathPrefixOf options @ basename filename
      else pathPrefixOf options @ take 8 (md5hex e content) @ extname filename)"

text \<open>\<^verbatim>\<open>cdnBaseUrl.replace(/\/$/, '')\<close> removes one slash at the end.\<close>

definition stripTrailingSlash :: "string \<Rightarrow> string" where
  "stripTrailingSlash b = (if b \<noteq> [] \<and> last b = CHR ''/'' then butlast b else b)"

definition cdnUrlOf :: "uploadImgCloudPluginType \<Rightarrow> cos_options \<Rightarrow> string \<Rightarrow> string" where
  "cdnUrlOf options co cosPath =
     (let dflt = ''https://'' @ Bucket co @ ''.cos.'' @ Region co @ ''.myqcloud.com/'' @ cosPath
      in case cdnBaseUrl options of
           Some b \<Rightarrow> if b \<noteq> [] then stripTrailingSlash b @ ''/'' @ cosPath else dflt
         | None \<Rightarrow> dflt)"

text \<open>
  The test of the search through the map, for one recorded path and one emitted filename:
  \<^verbatim>\<open>originalPath.includes(path.basename(filename)) || filename.includes(path.basename(originalPath))\<close>.
\<close>

definition pathsMatch :: "string \<Rightarrow> string \<Rightarrow> bool" where
  "pathsMatch originalPath filename =
     (includesStr originalPath (basename filename) \<or> includesStr filename (basename originalPath))"

text \<open>
  The search through \<^verbatim>\<open>imageUrlMap.entries()\<close>: the first recorded path, in insertion
  order, that passes the test; the loop leaves at the first hit.
\<close>

fun findOriginalPath :: "string \<Rightarrow> (string \<times> string) list \<Rightarrow> string option" where
  "findOriginalPath filename [] = None"
| "findOriginalPath filename ((originalPath, u) # m) =
     (if pathsMatch originalPath filename then Some originalPath
      else findOriginalPath filename m)"

definition recordUrl :: "bool \<Rightarrow> string \<Rightarrow> string \<Rightarrow> 'c world \<Rightarrow> 'c world" where
  "recordUrl v filename cdnUrl w =
     (case findOriginalPath filename (imageUrlMap w) of
        Some originalPath \<Rightarrow>
          emit (if v then [LogMatched originalPath cdnUrl] else [])
            (w\<lparr>imageUrlMap := mapSet originalPath cdnUrl (imageUrlMap w)\<rparr>)
      | None \<Rightarrow>
          emit (if v then [LogNewMapping filename cdnUrl] else [])
            (w\<lparr>imageUrlMap := mapSet filename cdnUrl (imageUrlMap w)\<rparr>))"

text \<open>The argument of \<^verbatim>\<open>cosClient.putObject\<close>.\<close>

definition putParamsOf :: "cos_options \<Rightarrow> string \<Rightarrow> source \<Rightarrow> put_params" where
  "putParamsOf co cosPath content =
     \<lparr>reqBucket = Bucket co, reqRegion = Region co, Key = cosPath, Body = content\<rparr>"

text \<open>
  The body of the \<^verbatim>\<open>try\<close> block for one image asset. \<open>Inl\<close> is the rejection of the
  awaited promise, with the world as it is when the error is thrown; \<open>Inr\<close> is normal
  completion, which includes the \<^verbatim>\<open>continue\<close> on falsy content. The awaited call
  returns only once the callback of \<^verbatim>\<open>putObject\<close> has been invoked.
\<close>

definition uploadTry ::
  "'c env \<Rightarrow> uploadImgCloudPluginType \<Rightarrow> cos_options \<Rightarrow> string \<Rightarrow> source \<Rightarrow> 'c world
    \<Rightarrow> (error \<times> 'c world) + 'c world" where
  "uploadTry e options co filename content w =
     (let v = verboseOf options;
          w1 = emit [LogContent content] w
      in if \<not> truthy content then Inr w1
         else
           let cosPath = cosPathOf e options filename content;
               params = putParamsOf co cosPath content;
               answer = putObject e (cosState w1) params;
               w2 = emit [PutObject params, PutSettled params (fst answer)] (w1\<lparr>cosState := snd answer\<rparr>)
           in case fst answer of
                Some err \<Rightarrow> Inl (CosError err, emit [ErrUploadFailed filename err] w2)
              | None \<Rightarrow>
                  let w3 = emit (if v then [LogUploadOk filename] else []) w2;
                      cdnUrl = cdnUrlOf options co cosPath;
                      w4 = emit (if v then [LogUrl filename cdnUrl] else []) w3
                  in Inr (recordUrl v filename cdnUrl w4))"

text \<open>One iteration of the first loop, with its \<^verbatim>\<open>catch\<close>.\<close>

definition uploadIter ::
  "'c env \<Rightarrow> uploadImgCloudPluginType \<Rightarrow> cos_options \<Rightarrow> 'c world \<Rightarrow> string \<times> source \<Rightarrow> 'c world" where
  "uploadIter e options co w entry =
     (if isImage (fst entry) then
        (case uploadTry e options co (fst entry) (snd entry) w of
           Inl thrown \<Rightarrow> emit [ErrCaught (fst entry) (fst thrown)] (snd thrown)
         | Inr w' \<Rightarrow> w')
      else w)"

fun uploadLoop ::
  "'c env \<Rightarrow> uploadImgCloudPluginType \<Rightarrow> cos_options \<Rightarrow> 'c world \<Rightarrow> (string \<times> source) list \<Rightarrow> 'c world" where
  "uploadLoop e options co w [] = w"
| "uploadLoop e options co w (entry # entries) =
     uploadLoop e options co (uploadIter e options co w entry) entries"

subsection \<open>The regular expression of the replacement loop\<close>

text \<open>
  The pattern is \<^verbatim>\<open>["']([^"']*NAME)["']\<close> with the flag \<^verbatim>\<open>g\<close>, where NAME is the basename
  pasted into the pattern without escaping. The fragment modelled here: a NAME without any
  of the syntax characters \<^verbatim>\<open>^ $ \ * + ? ( ) [ ] { } |\<close>, in which every character stands
  for itself except the dot, which matches any character but a line terminator; and a
  replacement template without \<^verbatim>\<open>$\<close>, which is then inserted as it is. Outside the
  fragment the answer is the engine's (\<open>regexEngine\<close>).
\<close>

datatype atom = Lit char | AnyChar

definition isQuote :: "char \<Rightarrow> bool" where
  "isQuote c = (c = CHR 0x22 \<or> c = CHR 0x27)"

definition lineTerminator :: "char \<Rightarrow> bool" where
  "lineTerminator c = (c = CHR 0x0A \<or> c = CHR 0x0D)"

fun atomMatches :: "atom \<Rightarrow> char \<Rightarrow> bool" where
  "atomMatches (Lit a) c = (c = a)"
| "atomMatches AnyChar c = (\<not> lineTerminator c)"

definition syntaxChar :: "char \<Rightarrow> bool" where
  "syntaxChar c = (c \<in> set (CHR 0x5C # ''^$*+?()[]{}|''))"

definition compileName :: "string \<Rightarrow> atom list option" where
  "compileName name =
     (if list_ex syntaxChar name then None
      else Some (map (\<lambda>c. if c = CHR ''.'' then AnyChar else Lit c) name))"

text \<open>The atoms of NAME match a prefix of the text, and a quote follows.\<close>

fun nameThenQuote :: "atom list \<Rightarrow> string \<Rightarrow> bool" where
  "nameThenQuote [] [] = False"
| "nameThenQuote [] (c # cs) = isQuote c"
| "nameThenQuote (a # as) [] = False"
| "nameThenQuote (a # as) (c # cs) = (atomMatches a c \<and> nameThenQuote as cs)"

text \<open>
  The greedy \<^verbatim>\<open>[^"']*\<close> first takes every character up to the next quote and then gives
  them back one at a time: the first \<open>k\<close>, counting down, at which the rest of the pattern
  matches.
\<close>

fun backtrack :: "atom list \<Rightarrow> string \<Rightarrow> nat \<Rightarrow> nat option" where
  "backtrack as cs 0 = (if nameThenQuote as cs then Some 0 else None)"
| "backtrack as cs (Suc k) =
     (if nameThenQuote as (drop (Suc k) cs) then Some (Suc k) else backtrack as cs k)"

text \<open>A match that starts at an opening quote: the number of characters it takes after that quote.\<close>

definition matchHere :: "atom list \<Rightarrow> string \<Rightarrow> nat option" where
  "matchHere as cs =
     (case backtrack as cs (length (takeWhile (\<lambda>c. \<not> isQuote c) cs)) of
        Some k \<Rightarrow> Some (k + length as + 1)
      | None \<Rightarrow> None)"

text \<open>\<^verbatim>\<open>content.replace(regex, rep)\<close> with the flag \<^verbatim>\<open>g\<close>: leftmost matches, none overlapping.\<close>

fun replaceAll :: "atom list \<Rightarrow> string \<Rightarrow> string \<Rightarrow> string" where
  "replaceAll as rep [] = []"
| "replaceAll as rep (c # cs) =
     (if isQuote c then
        (case matchHere as cs of
           Some n \<Rightarrow> rep @ replaceAll as rep (drop n cs)
         | None \<Rightarrow> c # replaceAll as rep cs)
      else c # replaceAll as rep cs)"

definition replaceOne :: "'c env \<Rightarrow> string \<Rightarrow> string \<Rightarrow> string \<Rightarrow> string option" where
  "replaceOne e imgFileName cdnUrl content =
     (case compileName imgFileName of
        Some as \<Rightarrow>
          if CHR ''$'' \<in> set cdnUrl then regexEngine e imgFileName cdnUrl content
          else Some (replaceAll as (CHR 0x22 # cdnUrl @ [CHR 0x22]) content)
      | None \<Rightarrow> regexEngine e imgFileName cdnUrl content)"

subsection \<open>processAssets: the replacement loop\<close>

text \<open>
  The loop over \<^verbatim>\<open>imageUrlMap.entries()\<close> for one script: it carries \<^verbatim>\<open>content\<close> and
  \<^verbatim>\<open>hasChanges\<close>. \<open>Inl\<close> is an exception thrown by the construction of the regular expression.
\<close>

fun replaceEntries ::
  "'c env \<Rightarrow> bool \<Rightarrow> (string \<times> string) list \<Rightarrow> string \<Rightarrow> bool \<Rightarrow> 'c world
    \<Rightarrow> (error + string \<times> bool) \<times> 'c world" where
  "replaceEntries e v [] content hasChanges w = (Inr (content, hasChanges), w)"
| "replaceEntries e v ((imgPath, cdnUrl) # m) content hasChanges w =
     (if cdnUrl \<noteq> [] then
        let imgFileName = basename imgPath;
            w1 = emit (if v then [LogReplace imgFileName cdnUrl] else []) w
        in case replaceOne e imgFileName cdnUrl content of
             None \<Rightarrow> (Inl SyntaxError, w1)
           | Some newContent \<Rightarrow>
               if newContent \<noteq> content then replaceEntries e v m newContent True w1
               else replaceEntries e v m content hasChanges w1
      else replaceEntries e v m content hasChanges w)"

text \<open>\<^verbatim>\<open>compilation.updateAsset(filename, source)\<close> on an asset that exists.\<close>

definition updateAsset :: "string \<Rightarrow> source \<Rightarrow> (string \<times> source) list \<Rightarrow> (string \<times> source) list" where
  "updateAsset filename src files =
     map (\<lambda>entry. if fst entry = filename then (filename, src) else entry) files"

text \<open>One iteration of the second loop; \<open>Some err\<close> is an exception that leaves the callback.\<close>

definition replaceIter ::
  "'c env \<Rightarrow> uploadImgCloudPluginType \<Rightarrow> 'c world \<Rightarrow> string \<times> source \<Rightarrow> error option \<times> 'c world" where
  "replaceIter e options w entry =
     (if isScript (fst entry) \<and> truthy (snd entry) then
        (case replaceEntries e (verboseOf options) (imageUrlMap w) (toString (snd entry)) False w of
           (Inl err, w') \<Rightarrow> (Some err, w')
         | (Inr (content, hasChanges), w') \<Rightarrow>
             if hasChanges then
               (None,
                emit (if verboseOf options then [LogUpdated (fst entry)] else [])
                  (emit [UpdateAsset (fst entry) content]
                     (w'\<lparr>assets := updateAsset (fst entry) (Str content) (assets w')\<rparr>)))
             else (None, w'))
      else (None, w))"

fun replaceLoop ::
  "'c env \<Rightarrow> uploadImgCloudPluginType \<Rightarrow> 'c world \<Rightarrow> (string \<times> source) list \<Rightarrow> error option \<times> 'c world" where
  "replaceLoop e options w [] = (None, w)"
| "replaceLoop e options w (entry # entries) =
     (case replaceIter e options w entry of
        (Some err, w') \<Rightarrow> (Some err, w')
      | (None, w') \<Rightarrow> replaceLoop e options w' entries)"

subsection \<open>The processAssets callback\<close>

text \<open>
  \<open>Some err\<close>: the promise of the callback rejects with \<open>err\<close>; \<open>None\<close>: it resolves. The
  world returned holds every effect performed up to that point. Both loops run over
  \<^verbatim>\<open>Object.entries(assets)\<close>, the assets as they are when the callback is entered.
\<close>

definition processAssets ::
  "'c env \<Rightarrow> uploadImgCloudPluginType \<Rightarrow> 'c world \<Rightarrow> error option \<times> 'c world" where
  "processAssets e options w =
     (case cos options of
        None \<Rightarrow> (None, w)
      | Some co \<Rightarrow>
          if shouldSkipUpload e options then (None, w)
          else replaceLoop e options (uploadLoop e options co w (assets w)) (assets w))"

subsection \<open>Reading the event sequence\<close>

text \<open>The events a step has added to the world.\<close>

definition newEvents :: "'c world \<Rightarrow> 'c world \<Rightarrow> event list" where
  "newEvents w w' = drop (length (events w)) (events w')"

text \<open>The requests of the \<^verbatim>\<open>putObject\<close> calls, in the order they were made.\<close>

fun putCalls :: "event list \<Rightarrow> put_params list" where
  "putCalls [] = []"
| "putCalls (PutObject p # es) = p # putCalls es"
| "putCalls (ev # es) = putCalls es"

fun isPutEvent :: "event \<Rightarrow> bool" where
  "isPutEvent (PutObject p) = True"
| "isPutEvent (PutSettled p r) = True"
| "isPutEvent ev = False"

fun isReplaceEvent :: "event \<Rightarrow> bool" where
  "isReplaceEvent (LogReplace n u) = True"
| "isReplaceEvent (UpdateAsset f c) = True"
| "isReplaceEvent (LogUpdated f) = True"
| "isReplaceEvent ev = False"

text \<open>
  Every \<^verbatim>\<open>putObject\<close> call is followed at once by its own settlement, and no settlement
  stands anywhere else: no call starts, and nothing else happens, while a call is pending.
  The first argument is the request that is pending, if any.
\<close>

fun settledAfter :: "put_params option \<Rightarrow> event list \<Rightarrow> bool" where
  "settledAfter pending [] = (pending = None)"
| "settledAfter pending (ev # es) =
     (case ev of
        PutObject p \<Rightarrow> pending = None \<and> settledAfter (Some p) es
      | PutSettled p r \<Rightarrow> pending = Some p \<and> settledAfter None es
      | _ \<Rightarrow> pending = None \<and> settledAfter None es)"

definition settledInTurn :: "event list \<Rightarrow> bool" where
  "settledInTurn es = settledAfter None es"


text \<open>
  The worlds the plugin can be in: after \<^verbatim>\<open>setup\<close>, after a call of either hook, and
  after the host has put other assets into the compilation (a rebuild).
\<close>

inductive reachable :: "'c env \<Rightarrow> uploadImgCloudPluginType \<Rightarrow> 'c world \<Rightarrow> bool"
  for e :: "'c env" and options :: uploadImgCloudPluginType where
  afterSetup: "reachable e options (pluginSetup e options c files)"
| afterTransform: "reachable e options w \<Longrightarrow> reachable e options (snd (transform options (info :: unit transformContext) w))"
| afterProcessAssets: "reachable e options w \<Longrightarrow> reachable e options (snd (processAssets e options w))"
| afterEmit: "reachable e options w \<Longrightarrow> reachable e options (w\<lparr>assets := files\<rparr>)"

subsection \<open>Notions used to state the properties\<close>

text \<open>An asset the first loop uploads: an image name and truthy content.\<close>

definition uploadable :: "string \<times> source \<Rightarrow> bool" where
  "uploadable entry = (isImage (fst entry) \<and> truthy (snd entry))"

text \<open>The keys of the requests that the store has answered without an error.\<close>

fun acceptedKeys :: "event list \<Rightarrow> string list" where
  "acceptedKeys [] = []"
| "acceptedKeys (ev # es) =
     (case ev of
        PutSettled p r \<Rightarrow> (if r = None then Key p # acceptedKeys es else acceptedKeys es)
      | _ \<Rightarrow> acceptedKeys es)"

text \<open>
  A value of the map is in order when it is the empty string, or the CDN URL built from
  the key of a request that the store has accepted.
\<close>

definition storedValueOk :: "uploadImgCloudPluginType \<Rightarrow> event list \<Rightarrow> string \<Rightarrow> bool" where
  "storedValueOk options es u =
     (u = [] \<or>
      (case cos options of
         None \<Rightarrow> False
       | Some co \<Rightarrow> u \<in> set (map (cdnUrlOf options co) (acceptedKeys es))))"

subsection \<open>A small build\<close>

text \<open>
  One image, imported as \<^verbatim>\<open>/src/assets/logo.png\<close> and emitted under a hashed name, an
  empty SVG, and three scripts, two of which refer to the image. The store of \<open>demoEnv\<close>
  accepts every request and counts them; that of \<open>failingEnv\<close> rejects the first one.
\<close>

definition demoCos :: cos_options where
  "demoCos = \<lparr>SecretId = ''id'', SecretKey = ''key'', Bucket = ''site-1250000000'', Region = ''ap-guangzhou''\<rparr>"

definition demoOptions :: uploadImgCloudPluginType where
  "demoOptions = \<lparr>cos = Some demoCos, oss = None, cdnBaseUrl = Some ''https://cdn.example/'',
     uploadInDev = None, pathPrefix = None, keepFilename = None, verbose = None\<rparr>"

definition ossOnlyOptions :: uploadImgCloudPluginType where
  "ossOnlyOptions = \<lparr>cos = None,
     oss = Some \<lparr>accessKeyId = ''id'', accessKeySecret = ''key'', bucket = ''site'', region = ''oss-cn-hangzhou''\<rparr>,
     cdnBaseUrl = Some ''https://cdn.example/'',
     uploadInDev = None, pathPrefix = None, keepFilename = None, verbose = None\<rparr>"

definition demoEnv :: "nat env" where
  "demoEnv = \<lparr>isDev = False, md5hex = (\<lambda>content. ''d41d8cd98f00b204e9800998ecf8427e''),
     putObject = (\<lambda>c params. (None, Suc c)), regexEngine = (\<lambda>name url content. None)\<rparr>"

definition failingEnv :: "nat env" where
  "failingEnv = \<lparr>isDev = False, md5hex = (\<lambda>content. ''d41d8cd98f00b204e9800998ecf8427e''),
     putObject = (\<lambda>c params. (if c = 0 then Some ''ETIMEDOUT'' else None, Suc c)),
     regexEngine = (\<lambda>name url content. None)\<rparr>"

definition logoReference :: string where
  "logoReference = ''var u='' @ [CHR 0x22] @ ''static/image/logo.abc123.png'' @ [CHR 0x22] @ '';''"

definition demoAssets :: "(string \<times> source) list" where
  "demoAssets =
     [(''static/image/logo.abc123.png'', Buf ''PNG''),
      (''static/image/blank.svg'', Str []),
      (''static/js/index.js'', Str logoReference),
      (''static/js/app.jsx'', Str logoReference),
      (''static/js/vendor.jsx'', Str ''var x=1;'')]"

definition demoWorld :: "nat world" where
  "demoWorld = snd (transform demoOptions \<lparr>resourcePath = ''/src/assets/logo.png'', code = Buf ''PNG'', rest = ()\<rparr>
                      (pluginSetup demoEnv demoOptions 0 demoAssets))"

section \<open>Auxiliary facts\<close>

subsection \<open>Events and the world\<close>

lemma emit_simps [simp]:
  "imageUrlMap (emit es w) = imageUrlMap w"
  "cosState (emit es w) = cosState w"
  "assets (emit es w) = assets w"
  "events (emit es w) = events w @ es"
  by (simp_all add: emit_def)

lemma recordUrl_simps [simp]:
  "cosState (recordUrl v f u w) = cosState w"
  "assets (recordUrl v f u w) = assets w"
  "events (recordUrl v f u w) =
     events w @ (if v then [case findOriginalPath f (imageUrlMap w) of
                              Some k \<Rightarrow> LogMatched k u | None \<Rightarrow> LogNewMapping f u] else [])"
  "imageUrlMap (recordUrl v f u w) =
     mapSet (case findOriginalPath f (imageUrlMap w) of Some k \<Rightarrow> k | None \<Rightarrow> f) u (imageUrlMap w)"
  by (simp_all add: recordUrl_def split: option.splits)

lemma putCalls_append: "putCalls (a @ b) = putCalls a @ putCalls b"
  by (induction a rule: putCalls.induct) simp_all

lemma settledAfter_append:
  "settledAfter s a \<Longrightarrow> settledAfter None b \<Longrightarrow> settledAfter s (a @ b)"
  by (induction a arbitrary: s) (auto split: event.splits)

lemma settledInTurn_append:
  "settledInTurn a \<Longrightarrow> settledInTurn b \<Longrightarrow> settledInTurn (a @ b)"
  by (simp add: settledInTurn_def settledAfter_append)

lemma newEvents_self [simp]: "newEvents w w = []"
  by (simp add: newEvents_def)

lemma newEvents_trans:
  assumes "events w1 = events w @ newEvents w w1" and "events w2 = events w1 @ newEvents w1 w2"
  shows "newEvents w w2 = newEvents w w1 @ newEvents w1 w2"
    and "events w2 = events w @ newEvents w w2"
proof -
  have "events w2 = events w @ (newEvents w w1 @ newEvents w1 w2)"
    using assms by simp
  then show "newEvents w w2 = newEvents w w1 @ newEvents w1 w2"
    by (simp add: newEvents_def[of w w2])
  then show "events w2 = events w @ newEvents w w2"
    using assms by simp
qed

subsection \<open>The upload loop\<close>

lemma uploadIter_events_prefix:
  "events (uploadIter e options co w entry) = events w @ newEvents w (uploadIter e options co w entry)"
  by (simp add: uploadIter_def uploadTry_def newEvents_def Let_def split: option.splits)

lemma uploadIter_assets [simp]: "assets (uploadIter e options co w entry) = assets w"
  by (simp add: uploadIter_def uploadTry_def Let_def split: option.splits)

lemma uploadIter_putCalls:
  "putCalls (newEvents w (uploadIter e options co w entry)) =
     (if isImage (fst entry) \<and> truthy (snd entry)
      then [putParamsOf co (cosPathOf e options (fst entry) (snd entry)) (snd entry)] else [])"
  by (simp add: uploadIter_def uploadTry_def newEvents_def Let_def split: option.splits)

lemma uploadIter_settled:
  "settledInTurn (newEvents w (uploadIter e options co w entry))"
  by (simp add: uploadIter_def uploadTry_def newEvents_def Let_def settledInTurn_def split: option.splits)

lemma uploadIter_no_replace:
  "list_all (\<lambda>ev. \<not> isReplaceEvent ev) (newEvents w (uploadIter e options co w entry))"
  by (simp add: uploadIter_def uploadTry_def newEvents_def Let_def split: option.splits)

lemma uploadLoop_events:
  "events (uploadLoop e options co w entries) = events w @ newEvents w (uploadLoop e options co w entries)
   \<and> putCalls (newEvents w (uploadLoop e options co w entries)) =
       map (\<lambda>entry. putParamsOf co (cosPathOf e options (fst entry) (snd entry)) (snd entry))
         (filter uploadable entries)
   \<and> settledInTurn (newEvents w (uploadLoop e options co w entries))
   \<and> list_all (\<lambda>ev. \<not> isReplaceEvent ev) (newEvents w (uploadLoop e options co w entries))"
proof (induction entries arbitrary: w)
  case Nil
  show ?case by (simp add: settledInTurn_def)
next
  case (Cons entry entries)
  let ?w1 = "uploadIter e options co w entry"
  let ?w2 = "uploadLoop e options co ?w1 entries"
  note step = uploadIter_events_prefix[of e options co w entry]
  note ih = Cons.IH[of ?w1]
  have split: "newEvents w ?w2 = newEvents w ?w1 @ newEvents ?w1 ?w2"
    and whole: "events ?w2 = events w @ newEvents w ?w2"
    using newEvents_trans[OF step] ih by blast+
  show ?case
    using ih whole
    by (simp add: split putCalls_append settledInTurn_append uploadIter_putCalls
        uploadIter_settled uploadIter_no_replace uploadable_def)
qed

lemma uploadLoop_assets [simp]: "assets (uploadLoop e options co w entries) = assets w"
  by (induction entries arbitrary: w) simp_all

lemma uploadIter_success_map:
  assumes "isImage filename" and "truthy content"
    and "fst (putObject e (cosState w) (putParamsOf co (cosPathOf e options filename content) content)) = None"
  shows "imageUrlMap (uploadIter e options co w (filename, content)) =
           mapSet (case findOriginalPath filename (imageUrlMap w) of Some k \<Rightarrow> k | None \<Rightarrow> filename)
             (cdnUrlOf options co (cosPathOf e options filename content)) (imageUrlMap w)"
  using assms by (simp add: uploadIter_def uploadTry_def Let_def)

subsection \<open>The replacement loop\<close>

lemma replaceOne_engine: "regexEngine e1 = regexEngine e2 \<Longrightarrow> replaceOne e1 n u c = replaceOne e2 n u c"
  by (simp add: replaceOne_def split: option.splits)

lemma replaceEntries_result_only:
  "regexEngine e1 = regexEngine e2 \<Longrightarrow>
     fst (replaceEntries e1 v1 m content hasChanges w1) = fst (replaceEntries e2 v2 m content hasChanges w2)"
proof (induction m arbitrary: content hasChanges w1 w2)
  case Nil
  show ?case by simp
next
  case (Cons entry m)
  obtain imgPath cdnUrl where entry: "entry = (imgPath, cdnUrl)" by (cases entry)
  have same: "replaceOne e1 (basename imgPath) cdnUrl content = replaceOne e2 (basename imgPath) cdnUrl content"
    using Cons.prems by (rule replaceOne_engine)
  show ?case
    unfolding entry
    by (cases "replaceOne e2 (basename imgPath) cdnUrl content")
       (simp_all add: same Let_def Cons.IH[OF Cons.prems])
qed

lemma replaceEntries_skips_empty:
  "replaceEntries e v (filter (\<lambda>entry. snd entry \<noteq> []) m) content hasChanges w =
     replaceEntries e v m content hasChanges w"
proof (induction m arbitrary: content hasChanges w)
  case Nil
  show ?case by simp
next
  case (Cons entry m)
  obtain imgPath cdnUrl where entry: "entry = (imgPath, cdnUrl)" by (cases entry)
  show ?case
    unfolding entry
    by (cases "replaceOne e (basename imgPath) cdnUrl content") (simp_all add: Let_def Cons.IH)
qed

lemma replaceEntries_error:
  "replaceEntries e v m content hasChanges w = (Inl err, w') \<Longrightarrow> err = SyntaxError"
proof (induction m arbitrary: content hasChanges w)
  case Nil
  then show ?case by simp
next
  case (Cons entry m)
  obtain imgPath cdnUrl where entry: "entry = (imgPath, cdnUrl)" by (cases entry)
  show ?case
    using Cons.prems Cons.IH unfolding entry
    by (cases "replaceOne e (basename imgPath) cdnUrl content")
       (auto simp: Let_def split: if_splits)
qed

lemma replaceEntries_frame:
  "replaceEntries e v m content hasChanges w = (r, w') \<Longrightarrow>
     imageUrlMap w' = imageUrlMap w \<and> cosState w' = cosState w \<and> assets w' = assets w
     \<and> events w' = events w @ newEvents w w'
     \<and> list_all (\<lambda>ev. \<not> isPutEvent ev \<and> (\<forall>f c. ev \<noteq> UpdateAsset f c)) (newEvents w w')"
proof (induction m arbitrary: content hasChanges w)
  case Nil
  then show ?case by auto
next
  case (Cons entry m)
  obtain imgPath cdnUrl where entry: "entry = (imgPath, cdnUrl)" by (cases entry)
  show ?case
  proof (cases "cdnUrl = []")
    case True
    then show ?thesis using Cons entry by simp
  next
    case False
    let ?w1 = "emit (if v then [LogReplace (basename imgPath) cdnUrl] else []) w"
    have w1: "events ?w1 = events w @ newEvents w ?w1" by (simp add: newEvents_def)
    have new1: "list_all (\<lambda>ev. \<not> isPutEvent ev \<and> (\<forall>f c. ev \<noteq> UpdateAsset f c)) (newEvents w ?w1)"
      by (simp add: newEvents_def)
    show ?thesis
    proof (cases "replaceOne e (basename imgPath) cdnUrl content")
      case None
      then have "w' = ?w1" using Cons.prems entry False by (simp add: Let_def)
      then show ?thesis using w1 new1 by simp
    next
      case (Some newContent)
      then obtain c h where rec: "replaceEntries e v m c h ?w1 = (r, w')"
        using Cons.prems entry False by (simp add: Let_def split: if_splits)
      note ih = Cons.IH[OF rec]
      have "newEvents w w' = newEvents w ?w1 @ newEvents ?w1 w'"
        and "events w' = events w @ newEvents w w'"
        using newEvents_trans[OF w1] ih by blast+
      then show ?thesis using ih new1 by simp
    qed
  qed
qed



lemma replaceIter_frame:
  assumes "replaceIter e options w entry = (r, w')"
  shows "imageUrlMap w' = imageUrlMap w \<and> cosState w' = cosState w
     \<and> events w' = events w @ newEvents w w'
     \<and> list_all (\<lambda>ev. \<not> isPutEvent ev) (newEvents w w')"
proof (cases "isScript (fst entry) \<and> truthy (snd entry)")
  case False
  then have "w' = w" using assms by (auto simp: replaceIter_def)
  then show ?thesis by simp
next
  case True
  obtain res w1 where run:
    "replaceEntries e (verboseOf options) (imageUrlMap w) (toString (snd entry)) False w = (res, w1)"
    by (cases "replaceEntries e (verboseOf options) (imageUrlMap w) (toString (snd entry)) False w")
  note fr = replaceEntries_frame[OF run]
  have quiet: "list_all (\<lambda>ev. \<not> isPutEvent ev) (newEvents w w1)"
    using fr by (simp add: list_all_iff)
  show ?thesis
  proof (cases res)
    case (Inl err)
    then have "w' = w1" using assms True run by (simp add: replaceIter_def)
    then show ?thesis using fr quiet by simp
  next
    case (Inr pair)
    obtain content hasChanges where pair: "pair = (content, hasChanges)" by (cases pair)
    show ?thesis
    proof (cases hasChanges)
      case False
      then have "w' = w1" using assms True run Inr pair by (simp add: replaceIter_def)
      then show ?thesis using fr quiet by simp
    next
      case True
      let ?tail = "UpdateAsset (fst entry) content # (if verboseOf options then [LogUpdated (fst entry)] else [])"
      have w': "w' = emit (if verboseOf options then [LogUpdated (fst entry)] else [])
                  (emit [UpdateAsset (fst entry) content]
                     (w1\<lparr>assets := updateAsset (fst entry) (Str content) (assets w1)\<rparr>))"
        using assms \<open>isScript (fst entry) \<and> truthy (snd entry)\<close> run Inr pair True
        by (simp add: replaceIter_def)
      have ev: "events w' = events w @ (newEvents w w1 @ ?tail)"
        using fr by (simp add: w')
      then have "newEvents w w' = newEvents w w1 @ ?tail"
        by (simp add: newEvents_def[of w w'])
      then show ?thesis using fr quiet ev by (simp add: w')
    qed
  qed
qed



lemma replaceLoop_frame:
  "replaceLoop e options w entries = (r, w') \<Longrightarrow>
     imageUrlMap w' = imageUrlMap w \<and> cosState w' = cosState w
     \<and> events w' = events w @ newEvents w w'
     \<and> list_all (\<lambda>ev. \<not> isPutEvent ev) (newEvents w w')"
proof (induction entries arbitrary: w)
  case Nil
  then show ?case by auto
next
  case (Cons entry entries)
  obtain r1 w1 where it: "replaceIter e options w entry = (r1, w1)"
    by (cases "replaceIter e options w entry")
  note fr = replaceIter_frame[OF it]
  show ?case
  proof (cases r1)
    case (Some err)
    then have "w' = w1" using Cons.prems it by simp
    then show ?thesis using fr by simp
  next
    case None
    then have rec: "replaceLoop e options w1 entries = (r, w')" using Cons.prems it by simp
    note ih = Cons.IH[OF rec]
    have "newEvents w w' = newEvents w w1 @ newEvents w1 w'"
      and "events w' = events w @ newEvents w w'"
      using newEvents_trans[of w1 w w'] fr ih by blast+
    then show ?thesis using fr ih by simp
  qed
qed

lemma replaceLoop_error:
  "replaceLoop e options w entries = (Some err, w') \<Longrightarrow> err = SyntaxError"
proof (induction entries arbitrary: w)
  case Nil
  then show ?case by simp
next
  case (Cons entry entries)
  obtain r1 w1 where it: "replaceIter e options w entry = (r1, w1)"
    by (cases "replaceIter e options w entry")
  show ?case
  proof (cases r1)
    case None
    then show ?thesis using Cons it by simp
  next
    case (Some err1)
    then have "err1 = SyntaxError"
      using it replaceEntries_error[of e "verboseOf options" "imageUrlMap w" "toString (snd entry)" False w]
      by (auto simp: replaceIter_def split: if_splits prod.splits sum.splits)
    then show ?thesis using Cons.prems it Some by simp
  qed
qed



lemma replaceOne_throws: "replaceOne e n u c = None \<Longrightarrow> regexEngine e n u c = None"
  by (simp add: replaceOne_def split: option.splits if_splits)

lemma replaceEntries_resolves:
  "(\<And>n u c. regexEngine e n u c \<noteq> None) \<Longrightarrow>
     \<exists>r. fst (replaceEntries e v m content hasChanges w) = Inr r"
proof (induction m arbitrary: content hasChanges w)
  case Nil
  show ?case by simp
next
  case (Cons entry m)
  obtain imgPath cdnUrl where entry: "entry = (imgPath, cdnUrl)" by (cases entry)
  have "replaceOne e (basename imgPath) cdnUrl content \<noteq> None"
    using Cons.prems replaceOne_throws by blast
  then obtain newContent where "replaceOne e (basename imgPath) cdnUrl content = Some newContent"
    by blast
  then show ?case
    unfolding entry using Cons.IH[OF Cons.prems] by (simp add: Let_def)
qed

lemma replaceLoop_resolves:
  "(\<And>n u c. regexEngine e n u c \<noteq> None) \<Longrightarrow> fst (replaceLoop e options w entries) = None"
proof (induction entries arbitrary: w)
  case Nil
  show ?case by simp
next
  case (Cons entry entries)
  obtain r where "fst (replaceEntries e (verboseOf options) (imageUrlMap w) (toString (snd entry)) False w) = Inr r"
    using replaceEntries_resolves[OF Cons.prems] by blast
  then have "fst (replaceIter e options w entry) = None"
    by (cases "replaceEntries e (verboseOf options) (imageUrlMap w) (toString (snd entry)) False w")
       (auto simp: replaceIter_def split: prod.splits)
  then show ?case
    using Cons.IH[OF Cons.prems] by (cases "replaceIter e options w entry") simp
qed

lemma processAssets_resolves:
  "(\<And>n u c. regexEngine e n u c \<noteq> None) \<Longrightarrow> fst (processAssets e options w) = None"
  by (simp add: processAssets_def replaceLoop_resolves split: option.splits)

lemma putCalls_quiet: "list_all (\<lambda>ev. \<not> isPutEvent ev) es \<Longrightarrow> putCalls es = []"
  by (induction es rule: putCalls.induct) simp_all

subsection \<open>Matching the pattern\<close>









subsection \<open>The map and the search through it\<close>


lemma mapSet_set: "entry \<in> set (mapSet k v m) \<Longrightarrow> entry = (k, v) \<or> entry \<in> set m"
  by (induction m) (auto split: if_splits)



subsection \<open>The values of the map\<close>

lemma acceptedKeys_append: "acceptedKeys (a @ b) = acceptedKeys a @ acceptedKeys b"
  by (induction a) (simp_all split: event.splits)

lemma storedValueOk_grows: "storedValueOk options es u \<Longrightarrow> storedValueOk options (es @ later) u"
  by (auto simp: storedValueOk_def acceptedKeys_append split: option.splits)

lemma cdnUrlOf_nonempty: "cdnUrlOf options co cosPath \<noteq> []"
  by (simp add: cdnUrlOf_def Let_def split: option.splits)

lemma uploadIter_values:
  assumes inv: "\<forall>entry\<in>set (imageUrlMap w). storedValueOk options (events w) (snd entry)"
    and co: "cos options = Some co"
  shows "\<forall>entry\<in>set (imageUrlMap (uploadIter e options co w x)).
           storedValueOk options (events (uploadIter e options co w x)) (snd entry)"
proof (cases "isImage (fst x) \<and> truthy (snd x)
              \<and> fst (putObject e (cosState w) (putParamsOf co (cosPathOf e options (fst x) (snd x)) (snd x))) = None")
  case False
  then have map: "imageUrlMap (uploadIter e options co w x) = imageUrlMap w"
    by (auto simp: uploadIter_def uploadTry_def Let_def split: option.splits)
  show ?thesis
    unfolding map uploadIter_events_prefix[of e options co w x]
    using inv by (auto intro: storedValueOk_grows)
next
  case True
  let ?url = "cdnUrlOf options co (cosPathOf e options (fst x) (snd x))"
  let ?w' = "uploadIter e options co w x"
  have map: "imageUrlMap ?w' =
      mapSet (case findOriginalPath (fst x) (imageUrlMap w) of Some k \<Rightarrow> k | None \<Rightarrow> fst x) ?url (imageUrlMap w)"
    using uploadIter_success_map[of "fst x" "snd x" e w co options] True by simp
  have "cosPathOf e options (fst x) (snd x) \<in> set (acceptedKeys (events ?w'))"
    using True by (simp add: uploadIter_def uploadTry_def Let_def acceptedKeys_append putParamsOf_def)
  then have new: "storedValueOk options (events ?w') ?url"
    using co by (simp add: storedValueOk_def)
  have old: "storedValueOk options (events ?w') (snd entry)" if "entry \<in> set (imageUrlMap w)" for entry
    using inv that storedValueOk_grows uploadIter_events_prefix[of e options co w x] by metis
  show ?thesis
  proof
    fix entry assume "entry \<in> set (imageUrlMap ?w')"
    then have "entry = (case findOriginalPath (fst x) (imageUrlMap w) of Some k \<Rightarrow> k | None \<Rightarrow> fst x, ?url)
               \<or> entry \<in> set (imageUrlMap w)"
      unfolding map by (rule mapSet_set)
    then show "storedValueOk options (events ?w') (snd entry)"
    proof
      assume "entry = (case findOriginalPath (fst x) (imageUrlMap w) of Some k \<Rightarrow> k | None \<Rightarrow> fst x, ?url)"
      then show ?thesis using new by simp
    next
      assume "entry \<in> set (imageUrlMap w)"
      then show ?thesis by (rule old)
    qed
  qed
qed

lemma uploadLoop_values:
  "\<forall>entry\<in>set (imageUrlMap w). storedValueOk options (events w) (snd entry) \<Longrightarrow> cos options = Some co
   \<Longrightarrow> \<forall>entry\<in>set (imageUrlMap (uploadLoop e options co w entries)).
           storedValueOk options (events (uploadLoop e options co w entries)) (snd entry)"
proof (induction entries arbitrary: w)
  case Nil
  then show ?case by simp
next
  case (Cons x entries)
  from uploadIter_values[OF Cons.prems, of e x]
  show ?case using Cons.IH[of "uploadIter e options co w x"] Cons.prems(2) by simp
qed

lemma processAssets_values:
  assumes "\<forall>entry\<in>set (imageUrlMap w). storedValueOk options (events w) (snd entry)"
  shows "\<forall>entry\<in>set (imageUrlMap (snd (processAssets e options w))).
           storedValueOk options (events (snd (processAssets e options w))) (snd entry)"
proof (cases "cos options")
  case None
  then show ?thesis using assms by (simp add: processAssets_def)
next
  case (Some co)
  show ?thesis
  proof (cases "shouldSkipUpload e options")
    case True
    then show ?thesis using assms Some by (simp add: processAssets_def)
  next
    case False
    let ?w1 = "uploadLoop e options co w (assets w)"
    obtain r w' where run: "replaceLoop e options ?w1 (assets w) = (r, w')"
      by (cases "replaceLoop e options ?w1 (assets w)")
    have res: "snd (processAssets e options w) = w'"
      using Some False run by (simp add: processAssets_def)
    note fr = replaceLoop_frame[OF run]
    have "\<forall>entry\<in>set (imageUrlMap ?w1). storedValueOk options (events ?w1) (snd entry)"
      using uploadLoop_values[OF assms Some] .
    then show ?thesis
      unfolding res using fr storedValueOk_grows by metis
  qed
qed

lemma reachable_values:
  "reachable e options w \<Longrightarrow> \<forall>entry\<in>set (imageUrlMap w). storedValueOk options (events w) (snd entry)"
proof (induction rule: reachable.induct)
  case (afterSetup c files)
  show ?case by (simp add: pluginSetup_def)
next
  case (afterTransform w info)
  have "storedValueOk options es []" for es by (simp add: storedValueOk_def)
  then show ?case
    using afterTransform.IH
    by (auto simp: transform_def Let_def dest!: mapSet_set intro: storedValueOk_grows)
next
  case (afterProcessAssets w)
  then show ?case by (intro processAssets_values)
next
  case (afterEmit w files)
  then show ?case by simp
qed

section \<open>The claims\<close>




text \<open>
  Claim C2. The filter of the replacement loop is \<^verbatim>\<open>/\.(j|t)s(x)$/\<close>, where the \<^verbatim>\<open>x\<close> is
  required: a script named \<^verbatim>\<open>index.js\<close> is never read, and its quoted reference to an
  uploaded image stays as it was, while the same text under the name \<^verbatim>\<open>app.jsx\<close> is
  rewritten to the CDN URL.
\<close>

theorem js_script_is_not_rewritten:
  "\<not> isScript ''static/js/index.js''
   \<and> acceptedKeys (newEvents demoWorld (snd (processAssets demoEnv demoOptions demoWorld)))
       = [''images/logo.abc123.png'']
   \<and> map_of (assets demoWorld) ''static/js/index.js''
       = Some (Str (''var u='' @ [CHR 0x22] @ ''static/image/logo.abc123.png'' @ [CHR 0x22] @ '';''))
   \<and> map_of (assets (snd (processAssets demoEnv demoOptions demoWorld))) ''static/js/index.js''
       = Some (Str (''var u='' @ [CHR 0x22] @ ''static/image/logo.abc123.png'' @ [CHR 0x22] @ '';''))
   \<and> map_of (assets demoWorld) ''static/js/app.jsx''
       = Some (Str (''var u='' @ [CHR 0x22] @ ''static/image/logo.abc123.png'' @ [CHR 0x22] @ '';''))
   \<and> map_of (assets (snd (processAssets demoEnv demoOptions demoWorld))) ''static/js/app.jsx''
       = Some (Str (''var u='' @ [CHR 0x22] @ ''https://cdn.example/images/logo.abc123.png'' @ [CHR 0x22] @ '';''))"
  by (intro conjI; code_simp)

text \<open>
  Claim C3. When \<^verbatim>\<open>putObject\<close> reports an error for an image asset with truthy content,
  the \<^verbatim>\<open>try\<close> block throws after one call, the \<^verbatim>\<open>catch\<close> of the same iteration logs
  the error, the map is left as it was, the request has been made exactly once, and the
  loop goes on with the remaining assets from that world. The callback never rejects with
  an error of the store, and it resolves whenever the construction of the regular
  expressions of the second loop does not throw.
\<close>

theorem failed_upload_is_caught_and_loop_continues:
  assumes "isImage filename" and "truthy content"
    and "putObject e (cosState w) (putParamsOf co (cosPathOf e options filename content) content)
           = (Some err, c')"
  shows "(let params = putParamsOf co (cosPathOf e options filename content) content;
              thrown = w\<lparr>cosState := c',
                          events := events w @ [LogContent content, PutObject params,
                                                PutSettled params (Some err), ErrUploadFailed filename err]\<rparr>;
              caught = thrown\<lparr>events := events thrown @ [ErrCaught filename (CosError err)]\<rparr>
          in uploadTry e options co filename content w = Inl (CosError err, thrown)
           \<and> uploadIter e options co w (filename, content) = caught
           \<and> imageUrlMap caught = imageUrlMap w
           \<and> putCalls (newEvents w caught) = [params]
           \<and> uploadLoop e options co w ((filename, content) # entries) = uploadLoop e options co caught entries)
         \<and> (\<forall>x. fst (processAssets e options start) \<noteq> Some (CosError x))
         \<and> ((\<forall>name url text. regexEngine e name url text \<noteq> None)
              \<longrightarrow> fst (processAssets e options start) = None)"
proof -
  let ?params = "putParamsOf co (cosPathOf e options filename content) content"
  let ?thrown = "w\<lparr>cosState := c',
                    events := events w @ [LogContent content, PutObject ?params,
                                          PutSettled ?params (Some err), ErrUploadFailed filename err]\<rparr>"
  have tried: "uploadTry e options co filename content w = Inl (CosError err, ?thrown)"
    using assms by (simp add: uploadTry_def emit_def Let_def)
  from tried have iter: "uploadIter e options co w (filename, content)
                     = ?thrown\<lparr>events := events ?thrown @ [ErrCaught filename (CosError err)]\<rparr>"
    using assms(1) by (simp add: uploadIter_def emit_def)
  have never: "fst (processAssets e options start) \<noteq> Some (CosError x)" for x
  proof
    assume rej: "fst (processAssets e options start) = Some (CosError x)"
    then obtain co' where co': "cos options = Some co'" and skip: "\<not> shouldSkipUpload e options"
      by (auto simp: processAssets_def split: option.splits if_splits)
    obtain w' where "replaceLoop e options (uploadLoop e options co' start (assets start)) (assets start)
                       = (Some (CosError x), w')"
      using rej co' skip by (cases "replaceLoop e options (uploadLoop e options co' start (assets start)) (assets start)")
        (simp add: processAssets_def)
    from replaceLoop_error[OF this] show False by simp
  qed
  show ?thesis
    unfolding Let_def using tried iter never processAssets_resolves[of e options start]
    by (simp add: newEvents_def)
qed

text \<open>The statement above for the store that rejects the first request.\<close>

theorem failed_upload_is_caught_and_loop_continues_witness:
  "isImage ''static/image/logo.abc123.png'' \<and> truthy (Buf ''PNG'')
   \<and> putObject failingEnv (cosState demoWorld)
        (putParamsOf demoCos (cosPathOf failingEnv demoOptions ''static/image/logo.abc123.png'' (Buf ''PNG'')) (Buf ''PNG''))
       = (Some ''ETIMEDOUT'', 1)
   \<and> imageUrlMap (uploadIter failingEnv demoOptions demoCos demoWorld (''static/image/logo.abc123.png'', Buf ''PNG''))
       = imageUrlMap demoWorld
   \<and> putCalls (newEvents demoWorld
         (uploadIter failingEnv demoOptions demoCos demoWorld (''static/image/logo.abc123.png'', Buf ''PNG'')))
       = [putParamsOf demoCos (cosPathOf failingEnv demoOptions ''static/image/logo.abc123.png'' (Buf ''PNG'')) (Buf ''PNG'')]
   \<and> fst (processAssets failingEnv demoOptions demoWorld) \<noteq> Some (CosError ''ETIMEDOUT'')
   \<and> fst (processAssets failingEnv demoOptions demoWorld) = None"
proof -
  have h1: "isImage ''static/image/logo.abc123.png''" by code_simp
  have h2: "truthy (Buf ''PNG'')" by simp
  have h3: "putObject failingEnv (cosState demoWorld)
        (putParamsOf demoCos (cosPathOf failingEnv demoOptions ''static/image/logo.abc123.png'' (Buf ''PNG'')) (Buf ''PNG''))
       = (Some ''ETIMEDOUT'', 1)" by code_simp
  have resolved: "fst (processAssets failingEnv demoOptions demoWorld) = None" by code_simp
  show ?thesis
    using failed_upload_is_caught_and_loop_continues[OF h1 h2 h3, where start = demoWorld] h1 h2 h3 resolved
    by (simp add: Let_def)
qed

text \<open>
  Claim C4. Past the early return, the events of the callback are those of the upload loop
  followed by those of the replacement loop. In the first part every \<^verbatim>\<open>putObject\<close> call
  is followed at once by its own settlement, so no call starts while another is pending,
  and nothing of the replacement happens; in the second part no call is made or settled,
  and the store and the map are as the uploads left them.
\<close>

theorem uploads_settle_in_turn_before_replacement:
  assumes "cos options = Some co" and "\<not> shouldSkipUpload e options"
  shows "(let uploaded = uploadLoop e options co w (assets w);
              done = snd (processAssets e options w)
          in newEvents w done = newEvents w uploaded @ newEvents uploaded done
           \<and> settledInTurn (newEvents w uploaded)
           \<and> list_all (\<lambda>ev. \<not> isReplaceEvent ev) (newEvents w uploaded)
           \<and> list_all (\<lambda>ev. \<not> isPutEvent ev) (newEvents uploaded done)
           \<and> cosState done = cosState uploaded
           \<and> imageUrlMap done = imageUrlMap uploaded)"
proof -
  let ?w1 = "uploadLoop e options co w (assets w)"
  obtain r w' where run: "replaceLoop e options ?w1 (assets w) = (r, w')"
    by (cases "replaceLoop e options ?w1 (assets w)")
  have res: "snd (processAssets e options w) = w'"
    using assms run by (simp add: processAssets_def)
  note up = uploadLoop_events[of e options co w "assets w"]
  note fr = replaceLoop_frame[OF run]
  have "newEvents w w' = newEvents w ?w1 @ newEvents ?w1 w'"
    using newEvents_trans[of ?w1 w w'] up fr by blast
  then show ?thesis unfolding Let_def res using up fr by simp
qed

text \<open>The statement above at the small build.\<close>

theorem uploads_settle_in_turn_before_replacement_witness:
  "cos demoOptions = Some demoCos \<and> \<not> shouldSkipUpload demoEnv demoOptions
   \<and> (let uploaded = uploadLoop demoEnv demoOptions demoCos demoWorld (assets demoWorld);
           done = snd (processAssets demoEnv demoOptions demoWorld)
       in newEvents demoWorld done = newEvents demoWorld uploaded @ newEvents uploaded done
        \<and> settledInTurn (newEvents demoWorld uploaded)
        \<and> list_all (\<lambda>ev. \<not> isReplaceEvent ev) (newEvents demoWorld uploaded)
        \<and> list_all (\<lambda>ev. \<not> isPutEvent ev) (newEvents uploaded done)
        \<and> cosState done = cosState uploaded
        \<and> imageUrlMap done = imageUrlMap uploaded)
   \<and> putCalls (newEvents demoWorld (uploadLoop demoEnv demoOptions demoCos demoWorld (assets demoWorld)))
       = [\<lparr>reqBucket = ''site-1250000000'', reqRegion = ''ap-guangzhou'',
           Key = ''images/logo.abc123.png'', Body = Buf ''PNG''\<rparr>]"
proof -
  have h1: "cos demoOptions = Some demoCos" by (simp add: demoOptions_def)
  have h2: "\<not> shouldSkipUpload demoEnv demoOptions" by code_simp
  have calls: "putCalls (newEvents demoWorld (uploadLoop demoEnv demoOptions demoCos demoWorld (assets demoWorld)))
       = [\<lparr>reqBucket = ''site-1250000000'', reqRegion = ''ap-guangzhou'',
           Key = ''images/logo.abc123.png'', Body = Buf ''PNG''\<rparr>]"
    by code_simp
  show ?thesis
    by (intro conjI h1 h2 calls uploads_settle_in_turn_before_replacement[OF h1 h2, of demoWorld])
qed

text \<open>
  Claim C5. The content and the \<^verbatim>\<open>hasChanges\<close> flag that the loop over the map produces
  for one script are a function of the map entries, the content and the flag it starts
  from, and the regular-expression engine: two runs that agree on these give the same
  result, whatever the verbosity, the rest of the environment and the world they run in.
\<close>

theorem replacement_depends_on_map_and_content_only:
  "regexEngine e1 = regexEngine e2 \<Longrightarrow>
     fst (replaceEntries e1 v1 m content hasChanges w1) = fst (replaceEntries e2 v2 m content hasChanges w2)"
  by (rule replaceEntries_result_only)

text \<open>Two runs over the same entry and content, in different worlds and with different verbosity.\<close>

theorem replacement_depends_on_map_and_content_only_witness:
  "regexEngine demoEnv = regexEngine failingEnv
   \<and> fst (replaceEntries demoEnv True [(''static/image/logo.abc123.png'', ''https://cdn.example/images/logo.abc123.png'')]
            logoReference False demoWorld)
     = fst (replaceEntries failingEnv False [(''static/image/logo.abc123.png'', ''https://cdn.example/images/logo.abc123.png'')]
            logoReference False (pluginSetup failingEnv ossOnlyOptions 7 []))"
proof -
  have h: "regexEngine demoEnv = regexEngine failingEnv" by (simp add: demoEnv_def failingEnv_def)
  show ?thesis by (intro conjI h replacement_depends_on_map_and_content_only[OF h])
qed

text \<open>
  Claim C6. With a COS configuration and upload not skipped, the \<^verbatim>\<open>putObject\<close> calls of
  one run of the callback are exactly one call for each emitted asset with an image name
  and truthy content, in the order of the assets, with the key and the body of that asset;
  an asset whose content is falsy, or whose name is not an image name, causes no call.
\<close>

theorem each_uploadable_asset_put_once:
  assumes "cos options = Some co" and "\<not> shouldSkipUpload e options"
  shows "putCalls (newEvents w (snd (processAssets e options w))) =
           map (\<lambda>entry. putParamsOf co (cosPathOf e options (fst entry) (snd entry)) (snd entry))
             (filter uploadable (assets w))"
proof -
  let ?w1 = "uploadLoop e options co w (assets w)"
  obtain r w' where run: "replaceLoop e options ?w1 (assets w) = (r, w')"
    by (cases "replaceLoop e options ?w1 (assets w)")
  have res: "snd (processAssets e options w) = w'"
    using assms run by (simp add: processAssets_def)
  note up = uploadLoop_events[of e options co w "assets w"]
  note fr = replaceLoop_frame[OF run]
  have "newEvents w w' = newEvents w ?w1 @ newEvents ?w1 w'"
    using newEvents_trans[of ?w1 w w'] up fr by blast
  then show ?thesis
    using up fr by (simp add: res putCalls_append putCalls_quiet uploadable_def)
qed

text \<open>The statement above at the small build.\<close>

theorem each_uploadable_asset_put_once_witness:
  "cos demoOptions = Some demoCos \<and> \<not> shouldSkipUpload demoEnv demoOptions
   \<and> putCalls (newEvents demoWorld (snd (processAssets demoEnv demoOptions demoWorld))) =
       [\<lparr>reqBucket = ''site-1250000000'', reqRegion = ''ap-guangzhou'',
          Key = ''images/logo.abc123.png'', Body = Buf ''PNG''\<rparr>]"
proof -
  have h1: "cos demoOptions = Some demoCos" by (simp add: demoOptions_def)
  have h2: "\<not> shouldSkipUpload demoEnv demoOptions" by code_simp
  have "map (\<lambda>entry. putParamsOf demoCos (cosPathOf demoEnv demoOptions (fst entry) (snd entry)) (snd entry))
          (filter uploadable (assets demoWorld)) =
        [\<lparr>reqBucket = ''site-1250000000'', reqRegion = ''ap-guangzhou'',
          Key = ''images/logo.abc123.png'', Body = Buf ''PNG''\<rparr>]"
    by code_simp
  then show ?thesis using each_uploadable_asset_put_once[OF h1 h2, of demoWorld] h1 h2 by simp
qed

text \<open>
  Claim C7. The map is empty after setup. In every world the plugin can reach, each value
  of the map is the empty string or the CDN URL of a request that the store has accepted,
  and such a URL is never empty. The replacement over the map gives the same result, and
  the same world, as the replacement over its entries with a non-empty value alone.
\<close>

theorem imageUrlMap_values_empty_or_accepted_url:
  "imageUrlMap (pluginSetup e options c files) = []
   \<and> (reachable e options w \<longrightarrow>
        (\<forall>entry\<in>set (imageUrlMap w). storedValueOk options (events w) (snd entry)))
   \<and> (\<forall>co cosPath. cdnUrlOf options co cosPath \<noteq> [])
   \<and> replaceEntries e v (filter (\<lambda>entry. snd entry \<noteq> []) m) content hasChanges w0
       = replaceEntries e v m content hasChanges w0"
  using reachable_values[of e options w] replaceEntries_skips_empty[of e v m content hasChanges w0]
  by (simp add: pluginSetup_def cdnUrlOf_nonempty)

text \<open>The statement above at the small build.\<close>

theorem imageUrlMap_values_empty_or_accepted_url_witness:
  "reachable demoEnv demoOptions (snd (processAssets demoEnv demoOptions demoWorld))
   \<and> imageUrlMap (pluginSetup demoEnv demoOptions (0::nat) demoAssets) = []
   \<and> imageUrlMap (snd (processAssets demoEnv demoOptions demoWorld)) =
       [(''/src/assets/logo.png'', []),
        (''static/image/logo.abc123.png'', ''https://cdn.example/images/logo.abc123.png'')]
   \<and> storedValueOk demoOptions (events (snd (processAssets demoEnv demoOptions demoWorld))) []
   \<and> storedValueOk demoOptions (events (snd (processAssets demoEnv demoOptions demoWorld)))
         ''https://cdn.example/images/logo.abc123.png''
   \<and> cdnUrlOf demoOptions demoCos ''images/logo.abc123.png'' \<noteq> []
   \<and> replaceEntries demoEnv True
        (filter (\<lambda>entry. snd entry \<noteq> [])
           [(''/src/assets/logo.png'', []),
            (''static/image/logo.abc123.png'', ''https://cdn.example/images/logo.abc123.png'')])
        logoReference False demoWorld
      = replaceEntries demoEnv True
          [(''/src/assets/logo.png'', []),
           (''static/image/logo.abc123.png'', ''https://cdn.example/images/logo.abc123.png'')]
          logoReference False demoWorld"
proof -
  let ?w = "snd (processAssets demoEnv demoOptions demoWorld)"
  have r: "reachable demoEnv demoOptions ?w"
    unfolding demoWorld_def by (intro reachable.intros)
  have m: "imageUrlMap ?w = [(''/src/assets/logo.png'', []),
                      (''static/image/logo.abc123.png'', ''https://cdn.example/images/logo.abc123.png'')]"
    by code_simp
  note inst = imageUrlMap_values_empty_or_accepted_url[of demoEnv demoOptions "0::nat" demoAssets ?w True
      "[(''/src/assets/logo.png'', []),
        (''static/image/logo.abc123.png'', ''https://cdn.example/images/logo.abc123.png'')]"
      logoReference False demoWorld]
  have all: "\<forall>entry\<in>set (imageUrlMap ?w). storedValueOk demoOptions (events ?w) (snd entry)"
    using inst r by blast
  have v1: "storedValueOk demoOptions (events ?w) []"
    and v2: "storedValueOk demoOptions (events ?w) ''https://cdn.example/images/logo.abc123.png''"
    using all unfolding m by simp_all
  have nonempty: "cdnUrlOf demoOptions demoCos ''images/logo.abc123.png'' \<noteq> []"
    using inst by blast
  have empty: "imageUrlMap (pluginSetup demoEnv demoOptions (0::nat) demoAssets) = []"
    and same: "replaceEntries demoEnv True
        (filter (\<lambda>entry. snd entry \<noteq> [])
           [(''/src/assets/logo.png'', []),
            (''static/image/logo.abc123.png'', ''https://cdn.example/images/logo.abc123.png'')])
        logoReference False demoWorld
      = replaceEntries demoEnv True
          [(''/src/assets/logo.png'', []),
           (''static/image/logo.abc123.png'', ''https://cdn.example/images/logo.abc123.png'')]
          logoReference False demoWorld"
    using inst by blast+
  show ?thesis by (intro conjI r empty m v1 v2 nonempty same)
qed

text \<open>
  Claim C8. With an OSS configuration and no COS configuration the callback resolves at
  once and leaves the world as it is: no event, no request to a store, every asset and the
  map unchanged.
\<close>

theorem oss_without_cos_touches_nothing:
  assumes "oss options = Some oo" and "cos options = None"
  shows "processAssets e options w = (None, w)"
  using assms by (simp add: processAssets_def)

text \<open>The statement above at the small build.\<close>

theorem oss_without_cos_touches_nothing_witness:
  "oss ossOnlyOptions \<noteq> None \<and> cos ossOnlyOptions = None
   \<and> processAssets demoEnv ossOnlyOptions demoWorld = (None, demoWorld)"
proof -
  have h1: "oss ossOnlyOptions = Some \<lparr>accessKeyId = ''id'', accessKeySecret = ''key'', bucket = ''site'', region = ''oss-cn-hangzhou''\<rparr>"
    and h2: "cos ossOnlyOptions = None"
    by (simp_all add: ossOnlyOptions_def)
  show ?thesis using oss_without_cos_touches_nothing[OF h1 h2, of demoEnv demoWorld] h1 h2 by simp
qed

text \<open>
  Claim C9. The transform hook returns the context it was given. It sets the resource path
  to the empty string in the map, leaves the assets and the store alone, and writes one
  console line when the plugin is verbose.
\<close>

theorem transform_returns_info_and_records_path:
  "fst (transform options info w) = info
   \<and> imageUrlMap (snd (transform options info w)) = mapSet (resourcePath info) [] (imageUrlMap w)
   \<and> assets (snd (transform options info w)) = assets w
   \<and> cosState (snd (transform options info w)) = cosState w
   \<and> events (snd (transform options info w)) =
       events w @ (if verbose options \<noteq> Some False then [LogRecordPath (resourcePath info)] else [])"
  by (simp add: transform_def Let_def)

text \<open>The statement above at the small build.\<close>

theorem transform_returns_info_and_records_path_witness:
  "fst (transform demoOptions \<lparr>resourcePath = ''/src/assets/logo.png'', code = Buf ''PNG'', rest = ()\<rparr>
          (pluginSetup demoEnv demoOptions (0::nat) demoAssets))
     = \<lparr>resourcePath = ''/src/assets/logo.png'', code = Buf ''PNG'', rest = ()\<rparr>
   \<and> imageUrlMap demoWorld = [(''/src/assets/logo.png'', [])]
   \<and> assets demoWorld = demoAssets
   \<and> events demoWorld = [LogRecordPath ''/src/assets/logo.png'']"
  using transform_returns_info_and_records_path[of demoOptions "\<lparr>resourcePath = ''/src/assets/logo.png'', code = Buf ''PNG'', rest = ()\<rparr>"
      "pluginSetup demoEnv demoOptions (0::nat) demoAssets"]
  by (simp add: demoWorld_def pluginSetup_def demoOptions_def demoEnv_def shouldSkipUpload_def)



end
